theory Spec2Isabelle
  imports Complex_Main "HOL-Library.Sublist" "HOL-Library.Multiset"
begin

section \<open>The connections view of the dashboard\<close>

text \<open>
  A shallow embedding of \<^verbatim>\<open>src/containers/Connections/index.tsx\<close>: the traffic
  codec (\<^verbatim>\<open>formatTraffic\<close>, \<^verbatim>\<open>parseTraffic\<close>), the speed formatter
  (\<^verbatim>\<open>formatSpeed\<close>), the sort state (\<^verbatim>\<open>handleSort\<close>), the memoised row view
  (\<^verbatim>\<open>data\<close>) and the stream handler (\<^verbatim>\<open>handleConnection\<close>).

  JavaScript numbers are doubles. Byte counters are integers, and every operation the
  component applies to them (subtraction, division by 1024, multiplication by 1024) is
  exact on doubles as long as the integers involved stay below \<open>2 ^ 53\<close>; the model
  computes with unbounded integers and exact rationals and is the program on that range.
  Strings are byte lists holding UTF-8; the two arrows of the speed column are the only
  non-ASCII characters the component writes.
\<close>

subsection \<open>Runtime values\<close>

datatype error = TypeError

text \<open>A number that came out of \<^verbatim>\<open>parseInt\<close>: an integer or \<^verbatim>\<open>NaN\<close>.\<close>

datatype number = NaN | Num int

fun times :: "number \<Rightarrow> int \<Rightarrow> number" where
  "times NaN k = NaN"
| "times (Num n) k = Num (n * k)"

fun minus :: "number \<Rightarrow> number \<Rightarrow> number" where
  "minus (Num a) (Num b) = Num (a - b)"
| "minus a b = NaN"

text \<open>\<^verbatim>\<open>Array.prototype.indexOf\<close>: the first index holding the element, or \<open>-1\<close>.\<close>

fun indexOf_from :: "nat \<Rightarrow> 'a list \<Rightarrow> 'a \<Rightarrow> int" where
  "indexOf_from i [] x = - 1"
| "indexOf_from i (y # ys) x = (if y = x then int i else indexOf_from (Suc i) ys x)"

definition indexOf :: "'a list \<Rightarrow> 'a \<Rightarrow> int" where
  "indexOf xs x = indexOf_from 0 xs x"

definition digit_chars :: string where
  "digit_chars = ''0123456789''"

definition digit_char :: "int \<Rightarrow> char" where
  "digit_char d = digit_chars ! nat d"

text \<open>The decimal digits of a non-negative integer.\<close>

function show_digits :: "int \<Rightarrow> string" where
  "show_digits n =
     (if n < 10 then [digit_char n] else show_digits (n div 10) @ [digit_char (n mod 10)])"
  by pat_completeness auto
termination
  by (relation "measure nat") auto

declare show_digits.simps [simp del]

text \<open>\<^verbatim>\<open>`${num}`\<close> for an integer \<^verbatim>\<open>num\<close>.\<close>

definition Number_toString :: "int \<Rightarrow> string" where
  "Number_toString i = (if i < 0 then CHR ''-'' # show_digits (- i) else show_digits i)"

text \<open>
  \<^verbatim>\<open>num.toFixed(2)\<close>: the sign, then the integer \<open>n\<close> for which \<open>n / 100\<close> is nearest to
  \<open>\<bar>num\<bar>\<close> (the larger one of two), written with two decimals.
\<close>

definition toFixed2 :: "rat \<Rightarrow> string" where
  "toFixed2 x =
     (let n = \<lfloor>\<bar>x\<bar> * 100 + 1 / 2\<rfloor>
      in (if x < 0 then ''-'' else '''') @ show_digits (n div 100) @ ''.'' @
         [digit_char (n mod 100 div 10), digit_char (n mod 10)])"

text \<open>
  \<^verbatim>\<open>~~x\<close> is \<^verbatim>\<open>ToInt32(x)\<close>: truncate towards zero, reduce modulo \<open>2 ^ 32\<close>, read as a
  signed 32-bit integer.
\<close>

definition ToInt32 :: "rat \<Rightarrow> int" where
  "ToInt32 x =
     (let t = (if x < 0 then - \<lfloor>- x\<rfloor> else \<lfloor>x\<rfloor>); m = t mod 2 ^ 32
      in if 2 ^ 31 \<le> m then m - 2 ^ 32 else m)"

text \<open>\<^verbatim>\<open>String.prototype.split(' ')\<close>: the fields between single spaces.\<close>

fun split_sp :: "string \<Rightarrow> string list" where
  "split_sp [] = [[]]"
| "split_sp (c # cs) =
     (if c = CHR '' '' then [] # split_sp cs
      else (case split_sp cs of [] \<Rightarrow> [[c]] | f # fs \<Rightarrow> (c # f) # fs))"

text \<open>\<^verbatim>\<open>toUpperCase\<close> on the ASCII letters; every other byte stays.\<close>

definition upper_char :: "char \<Rightarrow> char" where
  "upper_char c =
     (let i = indexOf ''abcdefghijklmnopqrstuvwxyz'' c
      in if i < 0 then c else ''ABCDEFGHIJKLMNOPQRSTUVWXYZ'' ! nat i)"

definition toUpperCase :: "string \<Rightarrow> string" where
  "toUpperCase s = map upper_char s"

definition is_digit :: "char \<Rightarrow> bool" where
  "is_digit c = (c \<in> set digit_chars)"

definition is_white :: "char \<Rightarrow> bool" where
  "is_white c = (c \<in> set [CHR 0x09, CHR 0x0A, CHR 0x0B, CHR 0x0C, CHR 0x0D, CHR 0x20])"

definition digits_val :: "string \<Rightarrow> int" where
  "digits_val ds = foldl (\<lambda>acc c. 10 * acc + indexOf digit_chars c) 0 ds"

text \<open>
  \<^verbatim>\<open>parseInt(s, 10)\<close>: skip leading white space (here the ASCII one: tab, line feed,
  vertical tab, form feed, carriage return, space), read a sign, then the longest run of
  decimal digits; \<^verbatim>\<open>NaN\<close> when there is no digit. Whatever follows the digits, a
  decimal point included, is ignored.
\<close>

definition parseInt :: "string \<Rightarrow> number" where
  "parseInt s =
     (let t = dropWhile is_white s;
          (sign, u) = (case t of
                         c # r \<Rightarrow> if c = CHR ''-'' then (- 1, r)
                                  else if c = CHR ''+'' then (1, r) else (1, t)
                       | [] \<Rightarrow> (1, t));
          ds = takeWhile is_digit u
      in if ds = [] then NaN else Num (sign * digits_val ds))"

text \<open>\<^verbatim>\<open>Array.prototype.join\<close>.\<close>

fun join :: "string \<Rightarrow> string list \<Rightarrow> string" where
  "join sep [] = []"
| "join sep [x] = x"
| "join sep (x # y # ys) = x @ sep @ join sep (y # ys)"

subsection \<open>TrafficCodec\<close>

definition trafficUnit :: "string list" where
  "trafficUnit = [''B'', ''KB'', ''MB'', ''GB'', ''TB'']"

text \<open>
  \<^verbatim>\<open>while (idx-- > 0) bit *= 1024\<close>
\<close>

function parseTraffic_loop :: "int \<Rightarrow> number \<Rightarrow> number" where
  "parseTraffic_loop idx bitv =
     (if idx > 0 then parseTraffic_loop (idx - 1) (times bitv 1024) else bitv)"
  by pat_completeness auto
termination
  by (relation "measure (\<lambda>(idx, bitv). nat idx)") auto

declare parseTraffic_loop.simps [simp del]

text \<open>
  \<^verbatim>\<open>let [num, unit] = traffic.split(' ')\<close> binds the first two fields; with a single field
  \<^verbatim>\<open>unit\<close> is \<^verbatim>\<open>undefined\<close> and \<^verbatim>\<open>unit.toUpperCase()\<close> throws a \<^verbatim>\<open>TypeError\<close>.
\<close>

definition parseTraffic :: "string \<Rightarrow> error + number" where
  "parseTraffic traffic =
     (case split_sp traffic of
        num # unit # rest \<Rightarrow>
          Inr (parseTraffic_loop (indexOf trafficUnit (toUpperCase unit)) (parseInt num))
      | _ \<Rightarrow> Inl TypeError)"

text \<open>
  \<^verbatim>\<open>while (~~(num / 1024) && idx < trafficUnit.length) { num /= 1024; idx++ }\<close>
\<close>

function formatTraffic_loop :: "rat \<Rightarrow> nat \<Rightarrow> rat \<times> nat" where
  "formatTraffic_loop num idx =
     (if ToInt32 (num / 1024) \<noteq> 0 \<and> idx < length trafficUnit
      then formatTraffic_loop (num / 1024) (idx + 1)
      else (num, idx))"
  by pat_completeness auto
termination
  by (relation "measure (\<lambda>(num, idx). length trafficUnit - idx)") auto

declare formatTraffic_loop.simps [simp del]

text \<open>\<^verbatim>\<open>`${trafficUnit[idx]}`\<close>: past the end of the array the element is \<^verbatim>\<open>undefined\<close>.\<close>

definition unit_at :: "nat \<Rightarrow> string" where
  "unit_at idx = (if idx < length trafficUnit then trafficUnit ! idx else ''undefined'')"

text \<open>
  At \<open>idx = 0\<close> the loop has not divided, so \<^verbatim>\<open>num\<close> is still the integer argument and
  prints as an integer.
\<close>

definition formatTraffic :: "int \<Rightarrow> string" where
  "formatTraffic n =
     (case formatTraffic_loop (of_int n) 0 of
        (num, idx) \<Rightarrow>
          (if idx = 0 then Number_toString n else toFixed2 num) @ '' '' @ unit_at idx)"

subsection \<open>SpeedFormatter\<close>

text \<open>The arrows U+2191 and U+2193, in UTF-8.\<close>

definition up_arrow :: string where
  "up_arrow = [CHR 0xE2, CHR 0x86, CHR 0x91]"

definition down_arrow :: string where
  "down_arrow = [CHR 0xE2, CHR 0x86, CHR 0x93]"

definition formatSpeed :: "int \<Rightarrow> int \<Rightarrow> string" where
  "formatSpeed upload download =
     (if upload = 0 \<and> download = 0 then ''-''
      else if upload \<noteq> 0 \<and> download \<noteq> 0
        then up_arrow @ '' '' @ formatTraffic upload @ ''/s '' @
             down_arrow @ '' '' @ formatTraffic download @ ''/s''
      else if upload \<noteq> 0 then up_arrow @ '' '' @ formatTraffic upload @ ''/s''
      else down_arrow @ '' '' @ formatTraffic download @ ''/s'')"

subsection \<open>The sort state\<close>

datatype Columns = Host | Network | Type | Chains | Rule | Speed | Upload | Download | Time

text \<open>\<^verbatim>\<open>type TableColumn = Columns | ''\<close>: \<open>None\<close> is the empty string, no column.\<close>

type_synonym TableColumn = "Columns option"

record TableSort =
  column :: TableColumn
  asc :: bool

definition initial_sort :: TableSort where
  "initial_sort = \<lparr>column = None, asc = True\<rparr>"

text \<open>
  \<^verbatim>\<open>setSort\<close> is the setter \<^verbatim>\<open>useObject\<close> returns; the hook is declared in \<^verbatim>\<open>@lib/hook\<close>,
  outside this file, and the setter is modelled by its three calls here:
  \<^verbatim>\<open>setSort('asc', false)\<close> and \<^verbatim>\<open>setSort('column', column)\<close> assign the one named field
  and keep the other, \<^verbatim>\<open>setSort({ column: '', asc: true })\<close> assigns both. (A setter that
  touched the other field too would already break the step from ascending to
  descending, which is \<^verbatim>\<open>setSort('asc', false)\<close>.)
\<close>

definition handleSort :: "TableColumn \<Rightarrow> TableSort \<Rightarrow> TableSort" where
  "handleSort col st =
     (if col = column st
      then (if asc st then st\<lparr>asc := False\<rparr> else \<lparr>column = None, asc = True\<rparr>)
      else st\<lparr>column := col\<rparr>)"

subsection \<open>Connections and rows\<close>

text \<open>
  Modelled from the spec: the record types \<^verbatim>\<open>API.Connections\<close> (\<^verbatim>\<open>@lib/request\<close>) and
  \<^verbatim>\<open>Connection\<close> (\<^verbatim>\<open>./store\<close>) are declared outside this file. The fields are those the
  component reads, typed as the data model of the specification types them:
  \<open>completed\<close> is a boolean, the counters are integers, and \<open>start\<close> is a valid
  timestamp, kept here as the milliseconds \<^verbatim>\<open>new Date(c.start).getTime()\<close> returns.
\<close>

record Metadata =
  host :: string
  destinationIP :: string
  destinationPort :: string
  mtype :: string
  network :: string

record Rate =
  rate_upload :: int
  rate_download :: int

record APIConnection =
  conn_id :: string
  metadata :: Metadata
  chains :: "string list"
  rule :: string
  rulePayload :: string
  start :: int
  upload :: int
  download :: int

record Connection = APIConnection +
  speed :: Rate
  completed :: bool

text \<open>The objects the memo maps the connections to: one table row each.\<close>

record Row =
  row_id :: string
  row_host :: string
  row_chains :: string
  row_rule :: string
  row_time :: string
  row_upload :: string
  row_download :: string
  row_type :: string
  row_network :: string
  row_speed :: string
  row_completed :: bool

text \<open>
  What the component takes from its environment: the collation of
  \<^verbatim>\<open>String.prototype.localeCompare\<close>, the relative time \<^verbatim>\<open>fromNow(date, lang)\<close> of
  \<^verbatim>\<open>@lib/date\<close> (at the current language), and the constant \<^verbatim>\<open>RuleType.RuleSet\<close> of
  \<^verbatim>\<open>@models\<close>.
\<close>

record Env =
  localeCompare :: "string \<Rightarrow> string \<Rightarrow> int"
  fromNow :: "int \<Rightarrow> string"
  RuleSet :: string

text \<open>The callback of \<^verbatim>\<open>.map(c => ({ ... }))\<close>.\<close>

definition toRow :: "Env \<Rightarrow> Connection \<Rightarrow> Row" where
  "toRow env c =
     \<lparr>row_id = conn_id c,
      row_host = (if host (metadata c) \<noteq> [] then host (metadata c)
                  else destinationIP (metadata c)) @ '':'' @ destinationPort (metadata c),
      row_chains = join '' --> '' (rev (chains c)),
      row_rule = (if rule c = RuleSet env then rule c @ ''('' @ rulePayload c @ '')''
                  else rule c),
      row_time = fromNow env (start c),
      row_upload = formatTraffic (upload c),
      row_download = formatTraffic (download c),
      row_type = mtype (metadata c),
      row_network = toUpperCase (network (metadata c)),
      row_speed = formatSpeed (rate_upload (speed c)) (rate_download (speed c)),
      row_completed = completed c\<rparr>"

text \<open>\<^verbatim>\<open>a[column]\<close>: the values of the enumeration are the keys of a row.\<close>

fun field :: "Columns \<Rightarrow> Row \<Rightarrow> string" where
  "field Host r = row_host r"
| "field Network r = row_network r"
| "field Type r = row_type r"
| "field Chains r = row_chains r"
| "field Rule r = row_rule r"
| "field Speed r = row_speed r"
| "field Upload r = row_upload r"
| "field Download r = row_download r"
| "field Time r = row_time r"

subsection \<open>The two comparators\<close>

text \<open>The comparator of the first \<^verbatim>\<open>.sort\<close>, on the connections.\<close>

definition baseCompare :: "Env \<Rightarrow> Connection \<Rightarrow> Connection \<Rightarrow> error + number" where
  "baseCompare env a b =
     Inr (Num (if completed a \<noteq> completed b then (if completed a then 1 else - 1)
               else (let diffTime = start a - start b
                     in if diffTime \<noteq> 0 then diffTime
                        else localeCompare env (conn_id a) (conn_id b))))"

text \<open>
  The comparator of the second \<^verbatim>\<open>.sort\<close>, on the rows. It throws when \<^verbatim>\<open>parseTraffic\<close>
  does, and returns \<^verbatim>\<open>NaN\<close> when one of the two parsed numbers is.
\<close>

definition userCompare :: "Env \<Rightarrow> TableSort \<Rightarrow> Row \<Rightarrow> Row \<Rightarrow> error + number" where
  "userCompare env st a b =
     (case column st of
        None \<Rightarrow> Inr (Num 0)
      | Some col \<Rightarrow>
          (let aValue = field col a; bValue = field col b
           in if col = Download \<or> col = Upload
              then (case parseTraffic aValue of
                      Inl e \<Rightarrow> Inl e
                    | Inr aSpeed \<Rightarrow>
                        (case parseTraffic bValue of
                           Inl e \<Rightarrow> Inl e
                         | Inr bSpeed \<Rightarrow>
                             Inr (if asc st then minus aSpeed bSpeed
                                  else minus bSpeed aSpeed)))
              else Inr (Num (if asc st then localeCompare env aValue bValue
                             else localeCompare env bValue aValue))))"

subsection \<open>Array.prototype.sort\<close>

text \<open>
  \<^verbatim>\<open>Array.prototype.sort(comparefn)\<close> sorts the array in place and returns it. The sort
  is stable (ECMAScript 2019): an element moves before another one only when the
  comparator says so. A comparator result of \<^verbatim>\<open>NaN\<close> counts as \<open>0\<close>, and an exception of
  the comparator leaves the sort. For a comparator that is a consistent order every
  conforming implementation returns the same array; the model is the stable insertion
  sort.
\<close>

fun sort_order :: "number \<Rightarrow> int" where
  "sort_order NaN = 0"
| "sort_order (Num k) = k"

fun insert_sorted :: "('a \<Rightarrow> 'a \<Rightarrow> error + number) \<Rightarrow> 'a \<Rightarrow> 'a list \<Rightarrow> error + 'a list" where
  "insert_sorted cmp x [] = Inr [x]"
| "insert_sorted cmp x (y # ys) =
     (case cmp x y of
        Inl e \<Rightarrow> Inl e
      | Inr v \<Rightarrow>
          if sort_order v \<le> 0 then Inr (x # y # ys)
          else (case insert_sorted cmp x ys of
                  Inl e \<Rightarrow> Inl e
                | Inr zs \<Rightarrow> Inr (y # zs)))"

fun Array_sort :: "('a \<Rightarrow> 'a \<Rightarrow> error + number) \<Rightarrow> 'a list \<Rightarrow> error + 'a list" where
  "Array_sort cmp [] = Inr []"
| "Array_sort cmp (x # xs) =
     (case Array_sort cmp xs of
        Inl e \<Rightarrow> Inl e
      | Inr ys \<Rightarrow> insert_sorted cmp x ys)"

subsection \<open>The memoised row view\<close>

text \<open>
  \<^verbatim>\<open>connections.sort(...).map(...).sort(...)\<close>. The first sort works on the array
  \<^verbatim>\<open>connections\<close> itself, the array the store hook handed out; \<^verbatim>\<open>.map\<close> builds a new
  array, which the second sort orders. The result is the pair of the array
  \<^verbatim>\<open>connections\<close> as the memo leaves it, and the rows.
\<close>

definition data ::
  "Env \<Rightarrow> TableSort \<Rightarrow> Connection list \<Rightarrow> error + Connection list \<times> Row list" where
  "data env st connections =
     (case Array_sort (baseCompare env) connections of
        Inl e \<Rightarrow> Inl e
      | Inr ordered \<Rightarrow>
          (case Array_sort (userCompare env st) (map (toRow env) ordered) of
             Inl e \<Rightarrow> Inl e
           | Inr rows \<Rightarrow> Inr (ordered, rows)))"

text \<open>
  The base order in the words of the specification: \<open>a\<close> may stand before \<open>b\<close> when \<open>a\<close> is
  active and \<open>b\<close> completed, or both are in the same group and \<open>a\<close> started earlier, or
  they started together and the comparison of the ids puts \<open>a\<close> first.
\<close>

definition spec_base_order :: "Env \<Rightarrow> Connection \<Rightarrow> Connection \<Rightarrow> bool" where
  "spec_base_order env a b \<longleftrightarrow>
     (\<not> completed a \<and> completed b) \<or>
     (completed a = completed b \<and>
      (start a < start b \<or>
       (start a = start b \<and> localeCompare env (conn_id a) (conn_id b) \<le> 0)))"

subsection \<open>The connection store and the stream handler\<close>

record Snapshot =
  snap_uploadTotal :: int
  snap_downloadTotal :: int
  snap_connections :: "APIConnection list"

record Traffic =
  uploadTotal :: int
  downloadTotal :: int

text \<open>
  Modelled from the spec: the store behind \<^verbatim>\<open>useConnections\<close> (\<^verbatim>\<open>./store\<close>) and its
  \<^verbatim>\<open>feed\<close> are not part of this file. Section 4.1 of the specification gives the state (a
  mapping from id to connection and the flag \<open>retainClosed\<close>) and the steps of \<open>feed\<close>:
  every incoming record is inserted with speed zero when its id is unknown, updated
  with the clamped counter differences when its id is known and not completed, and
  ignored when its id is completed; then every known, not completed id that is absent
  from the snapshot is completed with speed zero; then, unless closed connections are
  retained, the completed ones are removed.
\<close>

record Store =
  mapping :: "string \<Rightarrow> Connection option"
  retainClosed :: bool

definition stored :: "APIConnection \<Rightarrow> Rate \<Rightarrow> Connection" where
  "stored c r =
     \<lparr>conn_id = conn_id c, metadata = metadata c, chains = chains c, rule = rule c,
      rulePayload = rulePayload c, start = start c, upload = upload c,
      download = download c, speed = r, completed = False\<rparr>"

definition reconcile ::
  "(string \<Rightarrow> Connection option) \<Rightarrow> APIConnection \<Rightarrow> (string \<Rightarrow> Connection option)" where
  "reconcile m c =
     (case m (conn_id c) of
        None \<Rightarrow> m(conn_id c \<mapsto> stored c \<lparr>rate_upload = 0, rate_download = 0\<rparr>)
      | Some old \<Rightarrow>
          if completed old then m
          else m(conn_id c \<mapsto>
                 stored c \<lparr>rate_upload = max 0 (upload c - upload old),
                           rate_download = max 0 (download c - download old)\<rparr>))"

definition complete_absent ::
  "string set \<Rightarrow> (string \<Rightarrow> Connection option) \<Rightarrow> (string \<Rightarrow> Connection option)" where
  "complete_absent ids m =
     (\<lambda>k. case m k of
            None \<Rightarrow> None
          | Some c \<Rightarrow>
              if \<not> completed c \<and> k \<notin> ids
              then Some (c\<lparr>speed := \<lparr>rate_upload = 0, rate_download = 0\<rparr>, completed := True\<rparr>)
              else Some c)"

definition purge_completed ::
  "(string \<Rightarrow> Connection option) \<Rightarrow> (string \<Rightarrow> Connection option)" where
  "purge_completed m =
     (\<lambda>k. case m k of None \<Rightarrow> None | Some c \<Rightarrow> if completed c then None else Some c)"

definition feed :: "APIConnection list \<Rightarrow> Store \<Rightarrow> Store" where
  "feed incoming s =
     (let ids = set (map conn_id incoming);
          m1 = foldl reconcile (mapping s) incoming;
          m2 = complete_absent ids m1;
          m3 = (if retainClosed s then m2 else purge_completed m2)
      in s\<lparr>mapping := m3\<rparr>)"

text \<open>
  The state the handler writes: the totals (\<^verbatim>\<open>setTraffic\<close>) and the store (\<^verbatim>\<open>feed\<close>).
\<close>

record State =
  traffic :: Traffic
  store :: Store

text \<open>
  \<^verbatim>\<open>for (const snapshot of snapshots) { setTraffic({...}); feed(snapshot.connections) }\<close>
\<close>

fun handleConnection :: "Snapshot list \<Rightarrow> State \<Rightarrow> State" where
  "handleConnection [] st = st"
| "handleConnection (snapshot # snapshots) st =
     handleConnection snapshots
       (st\<lparr>traffic := \<lparr>uploadTotal = snap_uploadTotal snapshot,
                        downloadTotal = snap_downloadTotal snapshot\<rparr>,
           store := feed (snap_connections snapshot) (store st)\<rparr>)"

subsection \<open>A concrete environment and concrete connections\<close>

text \<open>A collation for the examples: the order of the code units.\<close>

fun compare_units :: "nat list \<Rightarrow> nat list \<Rightarrow> int" where
  "compare_units [] [] = 0"
| "compare_units [] (y # ys) = - 1"
| "compare_units (x # xs) [] = 1"
| "compare_units (x # xs) (y # ys) =
     (if x < y then - 1 else if y < x then 1 else compare_units xs ys)"

definition compare_bytes :: "string \<Rightarrow> string \<Rightarrow> int" where
  "compare_bytes a b = compare_units (map of_char a) (map of_char b)"

definition example_env :: Env where
  "example_env =
     \<lparr>localeCompare = compare_bytes, fromNow = (\<lambda>t. ''now''), RuleSet = ''RuleSet''\<rparr>"

definition example_metadata :: Metadata where
  "example_metadata =
     \<lparr>host = ''example.org'', destinationIP = ''192.0.2.1'', destinationPort = ''443'',
      mtype = ''HTTPS'', network = ''tcp''\<rparr>"

definition example_record :: "string \<Rightarrow> int \<Rightarrow> int \<Rightarrow> int \<Rightarrow> APIConnection" where
  "example_record i t up down =
     \<lparr>conn_id = i, metadata = example_metadata, chains = [''DIRECT''], rule = ''Match'',
      rulePayload = '''', start = t, upload = up, download = down\<rparr>"

definition example_connection :: "string \<Rightarrow> int \<Rightarrow> int \<Rightarrow> bool \<Rightarrow> Connection" where
  "example_connection i t up fin =
     \<lparr>conn_id = i, metadata = example_metadata, chains = [''DIRECT''], rule = ''Match'',
      rulePayload = '''', start = t, upload = up, download = 0,
      speed = \<lparr>rate_upload = 0, rate_download = 0\<rparr>, completed = fin\<rparr>"

definition example_snapshots :: "Snapshot list" where
  "example_snapshots =
     [\<lparr>snap_uploadTotal = 10, snap_downloadTotal = 20,
       snap_connections = [example_record ''y'' 5 10 20]\<rparr>,
      \<lparr>snap_uploadTotal = 120, snap_downloadTotal = 230,
       snap_connections = [example_record ''y'' 5 20 30, example_record ''x'' 7 100 200]\<rparr>,
      \<lparr>snap_uploadTotal = 170, snap_downloadTotal = 290,
       snap_connections = [example_record ''x'' 7 150 260]\<rparr>]"

definition example_records :: "nat \<Rightarrow> APIConnection" where
  "example_records i =
     (if i = 1 then example_record ''x'' 7 100 200 else example_record ''x'' 7 150 260)"

text \<open>The state before the first batch: no totals, an empty store that drops closed
  connections.\<close>

definition initial_state :: State where
  "initial_state =
     \<lparr>traffic = \<lparr>uploadTotal = 0, downloadTotal = 0\<rparr>,
      store = \<lparr>mapping = (\<lambda>k. None), retainClosed = False\<rparr>\<rparr>"

section \<open>Lemmas\<close>

subsection \<open>Kernel evaluation of the codec\<close>

lemma formatTraffic_1024: "formatTraffic 1024 = ''1.00 KB''"
  by code_simp

lemma formatTraffic_512: "formatTraffic 512 = ''512 B''"
  by code_simp

lemma parse_format_2048: "parseTraffic (formatTraffic 2048) = Inr (Num 2048)"
  by code_simp

lemma formatTraffic_4TB: "formatTraffic (2 ^ 42) = ''4398046511104 B''"
  by code_simp

subsection \<open>Splitting and parsing\<close>

lemma split_sp_nonempty: "split_sp s \<noteq> []"
  by (induction s) (auto split: list.splits)

lemma split_sp_no_space: "CHR '' '' \<notin> set s \<Longrightarrow> split_sp s = [s]"
  by (induction s) auto

lemma split_sp_first_space:
  "CHR '' '' \<notin> set num \<Longrightarrow> split_sp (num @ CHR '' '' # rest) = num # split_sp rest"
  by (induction num) auto

lemma indexOf_from_absent: "x \<notin> set xs \<Longrightarrow> indexOf_from i xs x = - 1"
  by (induction xs arbitrary: i) auto

lemma indexOf_absent: "x \<notin> set xs \<Longrightarrow> indexOf xs x = - 1"
  by (simp add: indexOf_def indexOf_from_absent)

lemma parseTraffic_loop_nonpos: "idx \<le> 0 \<Longrightarrow> parseTraffic_loop idx b = b"
  by (simp add: parseTraffic_loop.simps)

lemma digit_char_is_digit: "d < 10 \<Longrightarrow> is_digit (digit_char d)"
proof -
  assume "d < 10"
  then have "nat d < length digit_chars" by (simp add: digit_chars_def)
  then show ?thesis unfolding is_digit_def digit_char_def by (rule nth_mem)
qed

lemma show_digits_digits: "c \<in> set (show_digits n) \<Longrightarrow> is_digit c"
proof (induction n arbitrary: c rule: show_digits.induct)
  case (1 n)
  show ?case
  proof (cases "n < 10")
    case True
    with "1.prems" show ?thesis
      by (simp add: show_digits.simps [of n] digit_char_is_digit)
  next
    case False
    with "1.prems" "1.IH" show ?thesis
      by (auto simp: show_digits.simps [of n] digit_char_is_digit)
  qed
qed

lemma show_digits_nonempty: "show_digits n \<noteq> []"
  by (simp add: show_digits.simps [of n])

lemma is_digit_plain:
  "is_digit c \<Longrightarrow> c \<noteq> CHR '' '' \<and> c \<noteq> CHR ''-'' \<and> c \<noteq> CHR ''+'' \<and> \<not> is_white c"
  by (auto simp: is_digit_def digit_chars_def is_white_def)

lemma parseInt_signed_digits:
  assumes "sg = [] \<or> sg = ''-''" and "ds \<noteq> []" and "\<And>c. c \<in> set ds \<Longrightarrow> is_digit c"
  shows "\<exists>k. parseInt (sg @ ds @ rest) = Num k"
proof -
  from assms(2) obtain d ds' where ds: "ds = d # ds'" by (cases ds) auto
  with assms(3) have d: "is_digit d" by simp
  note p = is_digit_plain [OF d]
  from assms(1) show ?thesis
  proof
    assume "sg = []"
    with ds d p show ?thesis by (simp add: parseInt_def)
  next
    assume "sg = ''-''"
    with ds d p show ?thesis by (simp add: parseInt_def is_white_def)
  qed
qed

lemma parseTraffic_loop_Num: "\<exists>k'. parseTraffic_loop idx (Num k) = Num k'"
proof (induction idx "Num k" arbitrary: k rule: parseTraffic_loop.induct)
  case (1 idx)
  then show ?case
    by (cases "idx > 0") (simp_all add: parseTraffic_loop.simps [of idx])
qed

lemma parseTraffic_number_unit:
  assumes "CHR '' '' \<notin> set body"
  shows "parseTraffic (body @ '' '' @ u) =
    Inr (parseTraffic_loop (indexOf trafficUnit (toUpperCase (hd (split_sp u)))) (parseInt body))"
proof -
  obtain f fs where "split_sp u = f # fs"
    using split_sp_nonempty [of u] by (cases "split_sp u") auto
  with assms show ?thesis
    by (simp add: parseTraffic_def split_sp_first_space)
qed

lemma formatTraffic_shape:
  "\<exists>sg ds rest u. formatTraffic n = (sg @ ds @ rest) @ '' '' @ u \<and>
     (sg = [] \<or> sg = ''-'') \<and> ds \<noteq> [] \<and> (\<forall>c\<in>set ds. is_digit c) \<and>
     CHR '' '' \<notin> set (sg @ ds @ rest)"
proof -
  obtain num idx where loop: "formatTraffic_loop (of_int n) 0 = (num, idx)"
    by (cases "formatTraffic_loop (of_int n) 0")
  show ?thesis
  proof (cases "idx = 0")
    case True
    define sg where "sg = (if n < 0 then ''-'' else [])"
    define ds where "ds = show_digits (if n < 0 then - n else n)"
    have "formatTraffic n = (sg @ ds @ []) @ '' '' @ unit_at idx"
      using loop True by (simp add: formatTraffic_def Number_toString_def sg_def ds_def)
    moreover have "sg = [] \<or> sg = ''-''" by (simp add: sg_def)
    moreover have "ds \<noteq> []" by (simp add: ds_def show_digits_nonempty)
    moreover have dd: "\<forall>c\<in>set ds. is_digit c" by (simp add: ds_def show_digits_digits)
    moreover have "CHR '' '' \<notin> set ds"
      using dd is_digit_plain by blast
    then have "CHR '' '' \<notin> set (sg @ ds @ [])"
      by (simp add: sg_def)
    ultimately show ?thesis by blast
  next
    case False
    define m where "m = \<lfloor>\<bar>num\<bar> * 100 + 1 / 2\<rfloor>"
    define sg where "sg = (if num < 0 then ''-'' else [])"
    define ds where "ds = show_digits (m div 100)"
    define rest where "rest = ''.'' @ [digit_char (m mod 100 div 10), digit_char (m mod 10)]"
    have "formatTraffic n = (sg @ ds @ rest) @ '' '' @ unit_at idx"
      using loop False
      by (simp add: formatTraffic_def toFixed2_def Let_def sg_def ds_def rest_def m_def)
    moreover have "sg = [] \<or> sg = ''-''" by (simp add: sg_def)
    moreover have "ds \<noteq> []" by (simp add: ds_def show_digits_nonempty)
    moreover have dd: "\<forall>c\<in>set ds. is_digit c" by (simp add: ds_def show_digits_digits)
    moreover have "CHR '' '' \<notin> set (sg @ ds @ rest)"
    proof -
      have "is_digit (digit_char (m mod 100 div 10))" "is_digit (digit_char (m mod 10))"
        by (rule digit_char_is_digit, simp)+
      then have "digit_char (m mod 100 div 10) \<noteq> CHR '' ''" "digit_char (m mod 10) \<noteq> CHR '' ''"
        using is_digit_plain by blast+
      moreover have "CHR '' '' \<notin> set ds"
        using dd is_digit_plain by blast
      ultimately show ?thesis
        by (simp add: sg_def rest_def)
    qed
    ultimately show ?thesis by blast
  qed
qed

lemma parse_format_number: "\<exists>k. parseTraffic (formatTraffic n) = Inr (Num k)"
proof -
  from formatTraffic_shape [of n] obtain sg ds rest u where
    f: "formatTraffic n = (sg @ ds @ rest) @ '' '' @ u"
    and s: "sg = [] \<or> sg = ''-''" and d: "ds \<noteq> []" "\<forall>c\<in>set ds. is_digit c"
    and sp: "CHR '' '' \<notin> set (sg @ ds @ rest)"
    by blast
  from parseInt_signed_digits [OF s d(1), of rest] d(2)
  obtain k where "parseInt (sg @ ds @ rest) = Num k" by blast
  with parseTraffic_number_unit [OF sp, of u] f parseTraffic_loop_Num
  show ?thesis by metis
qed

lemma hd_split_sp: "hd (split_sp s) = takeWhile (\<lambda>c. c \<noteq> CHR '' '') s"
proof (induction s)
  case Nil
  then show ?case by simp
next
  case (Cons c cs)
  obtain f fs where "split_sp cs = f # fs"
    using split_sp_nonempty [of cs] by (cases "split_sp cs") auto
  with Cons show ?case by simp
qed

lemma formatTraffic_loop_bytes:
  "0 \<le> n \<Longrightarrow> n < 1024 \<Longrightarrow> formatTraffic_loop (of_int n) 0 = (of_int n, 0)"
proof -
  assume n: "0 \<le> n" "n < 1024"
  have "\<lfloor>(of_int n :: rat) / 1024\<rfloor> = n div 1024"
    using floor_divide_of_int_eq [of n 1024, where ?'a = rat] by simp
  with n have "ToInt32 (of_int n / 1024) = 0"
    by (simp add: ToInt32_def Let_def)
  then show ?thesis
    by (simp add: formatTraffic_loop.simps [of "of_int n" 0])
qed

lemma formatTraffic_bytes:
  "0 \<le> n \<Longrightarrow> n < 1024 \<Longrightarrow> formatTraffic n = show_digits n @ '' B''"
  by (simp add: formatTraffic_def formatTraffic_loop_bytes Number_toString_def unit_at_def
      trafficUnit_def)

lemma indexOf_digit_char: "0 \<le> d \<Longrightarrow> d < 10 \<Longrightarrow> indexOf digit_chars (digit_char d) = d"
proof -
  assume "0 \<le> d" "d < 10"
  then have "d = 0 \<or> d = 1 \<or> d = 2 \<or> d = 3 \<or> d = 4 \<or> d = 5 \<or> d = 6 \<or> d = 7 \<or> d = 8 \<or> d = 9"
    by arith
  then show ?thesis
    by (elim disjE) (simp_all add: indexOf_def digit_char_def digit_chars_def)
qed

lemma digits_val_snoc: "digits_val (ds @ [c]) = 10 * digits_val ds + indexOf digit_chars c"
  by (simp add: digits_val_def)

lemma digits_val_show_digits: "0 \<le> n \<Longrightarrow> digits_val (show_digits n) = n"
proof (induction n rule: show_digits.induct)
  case (1 n)
  show ?case
  proof (cases "n < 10")
    case True
    with "1.prems" show ?thesis
      by (simp add: show_digits.simps [of n] digits_val_def indexOf_digit_char)
  next
    case False
    with "1.prems" "1.IH" have "digits_val (show_digits (n div 10)) = n div 10" by simp
    moreover have "indexOf digit_chars (digit_char (n mod 10)) = n mod 10"
      by (rule indexOf_digit_char) simp_all
    ultimately show ?thesis
      using False by (simp add: show_digits.simps [of n] digits_val_snoc)
  qed
qed

lemma parseInt_show_digits: "0 \<le> n \<Longrightarrow> parseInt (show_digits n) = Num n"
proof -
  assume n: "0 \<le> n"
  obtain d ds where ds: "show_digits n = d # ds"
    using show_digits_nonempty [of n] by (cases "show_digits n") auto
  have all: "\<forall>c\<in>set (show_digits n). is_digit c"
    using show_digits_digits by blast
  with ds have "is_digit d" by simp
  note p = is_digit_plain [OF this]
  from all have "takeWhile is_digit (show_digits n) = show_digits n"
    by (simp add: takeWhile_eq_all_conv)
  with ds p digits_val_show_digits [OF n] show ?thesis
    by (simp add: parseInt_def)
qed

lemma parse_format_bytes:
  assumes "0 \<le> n" and "n < 1024"
  shows "parseTraffic (formatTraffic n) = Inr (Num n)"
proof -
  have sp: "CHR '' '' \<notin> set (show_digits n)"
    using show_digits_digits is_digit_plain by blast
  have "indexOf trafficUnit (toUpperCase ''B'') = 0"
    by code_simp
  with parseTraffic_number_unit [OF sp, of "''B''"] parseInt_show_digits [OF assms(1)]
  have "parseTraffic (show_digits n @ '' B'') = Inr (Num n)"
    by (simp add: parseTraffic_loop.simps [of 0])
  with assms show ?thesis
    by (simp add: formatTraffic_bytes)
qed

subsection \<open>Sorting with a comparator\<close>

lemma insert_sorted_correct:
  assumes ok: "\<And>a b. a \<in> S \<Longrightarrow> b \<in> S \<Longrightarrow> \<exists>v. cmp a b = Inr v \<and> (sort_order v \<le> 0 \<longleftrightarrow> R a b)"
    and total: "\<And>a b. a \<in> S \<Longrightarrow> b \<in> S \<Longrightarrow> R a b \<or> R b a"
    and trans: "\<And>a b c. a \<in> S \<Longrightarrow> b \<in> S \<Longrightarrow> c \<in> S \<Longrightarrow> R a b \<Longrightarrow> R b c \<Longrightarrow> R a c"
  shows "x \<in> S \<Longrightarrow> set ys \<subseteq> S \<Longrightarrow> sorted_wrt R ys \<Longrightarrow>
    \<exists>zs. insert_sorted cmp x ys = Inr zs \<and> mset zs = mset (x # ys) \<and> sorted_wrt R zs"
proof (induction ys)
  case Nil
  then show ?case by simp
next
  case (Cons y ys)
  from Cons.prems have xS: "x \<in> S" and yS: "y \<in> S" and ysS: "set ys \<subseteq> S"
    and y_le: "\<forall>z\<in>set ys. R y z" and srt: "sorted_wrt R ys"
    by auto
  from ok [OF xS yS] obtain v where v: "cmp x y = Inr v" "sort_order v \<le> 0 \<longleftrightarrow> R x y"
    by blast
  show ?case
  proof (cases "R x y")
    case True
    have "\<forall>z\<in>set ys. R x z"
      using True y_le trans [OF xS yS] ysS by blast
    with True v Cons.prems show ?thesis by simp
  next
    case False
    with total [OF xS yS] have yx: "R y x" by blast
    from Cons.IH [OF xS ysS srt] obtain zs where
      zs: "insert_sorted cmp x ys = Inr zs" "mset zs = mset (x # ys)" "sorted_wrt R zs"
      by blast
    from zs(2) have "set zs = insert x (set ys)"
      by (metis list.simps(15) mset_eq_setD)
    with yx y_le have "\<forall>z\<in>set zs. R y z" by simp
    with False v zs show ?thesis by simp
  qed
qed

lemma Array_sort_correct:
  assumes ok: "\<And>a b. a \<in> S \<Longrightarrow> b \<in> S \<Longrightarrow> \<exists>v. cmp a b = Inr v \<and> (sort_order v \<le> 0 \<longleftrightarrow> R a b)"
    and total: "\<And>a b. a \<in> S \<Longrightarrow> b \<in> S \<Longrightarrow> R a b \<or> R b a"
    and trans: "\<And>a b c. a \<in> S \<Longrightarrow> b \<in> S \<Longrightarrow> c \<in> S \<Longrightarrow> R a b \<Longrightarrow> R b c \<Longrightarrow> R a c"
  shows "set xs \<subseteq> S \<Longrightarrow>
    \<exists>ys. Array_sort cmp xs = Inr ys \<and> mset ys = mset xs \<and> sorted_wrt R ys"
proof (induction xs)
  case Nil
  then show ?case by simp
next
  case (Cons x xs)
  then obtain ys where ys: "Array_sort cmp xs = Inr ys" "mset ys = mset xs" "sorted_wrt R ys"
    by auto
  from ys(2) Cons.prems have "x \<in> S" "set ys \<subseteq> S"
    by (auto dest: mset_eq_setD)
  from insert_sorted_correct [of S cmp R, OF ok total trans this ys(3)] ys
  show ?case by auto
qed

lemma insert_sorted_zero:
  "(\<And>a b. cmp a b = Inr (Num 0)) \<Longrightarrow> insert_sorted cmp x ys = Inr (x # ys)"
  by (cases ys) simp_all

lemma Array_sort_zero:
  "(\<And>a b. cmp a b = Inr (Num 0)) \<Longrightarrow> Array_sort cmp xs = Inr xs"
  by (induction xs) (simp_all add: insert_sorted_zero)

lemma baseCompare_order:
  "\<exists>v. baseCompare env a b = Inr v \<and> (sort_order v \<le> 0 \<longleftrightarrow> spec_base_order env a b)"
  by (auto simp: baseCompare_def spec_base_order_def Let_def)

lemma spec_base_order_total:
  assumes "\<And>a b. localeCompare env a b \<le> 0 \<or> localeCompare env b a \<le> 0"
  shows "spec_base_order env a b \<or> spec_base_order env b a"
  using assms [of "conn_id a" "conn_id b"] by (auto simp: spec_base_order_def)

lemma spec_base_order_trans:
  assumes "\<And>a b c. localeCompare env a b \<le> 0 \<Longrightarrow> localeCompare env b c \<le> 0 \<Longrightarrow> localeCompare env a c \<le> 0"
  shows "spec_base_order env a b \<Longrightarrow> spec_base_order env b c \<Longrightarrow> spec_base_order env a c"
  using assms [of "conn_id a" "conn_id b" "conn_id c"] by (auto simp: spec_base_order_def)

lemma insert_sorted_perm:
  assumes ok: "\<And>a b. a \<in> S \<Longrightarrow> b \<in> S \<Longrightarrow> \<exists>v. cmp a b = Inr v"
  shows "x \<in> S \<Longrightarrow> set ys \<subseteq> S \<Longrightarrow>
    \<exists>zs. insert_sorted cmp x ys = Inr zs \<and> mset zs = mset (x # ys)"
proof (induction ys)
  case Nil
  then show ?case by simp
next
  case (Cons y ys)
  then have "x \<in> S" "y \<in> S" "set ys \<subseteq> S" by auto
  from ok [OF this(1,2)] obtain v where v: "cmp x y = Inr v" by blast
  from Cons.IH [OF \<open>x \<in> S\<close> \<open>set ys \<subseteq> S\<close>] obtain zs where
    "insert_sorted cmp x ys = Inr zs" "mset zs = mset (x # ys)" by blast
  with v show ?case by simp
qed

lemma Array_sort_perm:
  assumes ok: "\<And>a b. a \<in> S \<Longrightarrow> b \<in> S \<Longrightarrow> \<exists>v. cmp a b = Inr v"
  shows "set xs \<subseteq> S \<Longrightarrow> \<exists>ys. Array_sort cmp xs = Inr ys \<and> mset ys = mset xs"
proof (induction xs)
  case Nil
  then show ?case by simp
next
  case (Cons x xs)
  then obtain ys where ys: "Array_sort cmp xs = Inr ys" "mset ys = mset xs"
    by auto
  from ys(2) Cons.prems have "x \<in> S" "set ys \<subseteq> S"
    by (auto dest: mset_eq_setD)
  from insert_sorted_perm [of S cmp, OF ok this] ys
  show ?case by auto
qed

lemma baseCompare_sorts:
  "\<exists>ys. Array_sort (baseCompare env) connections = Inr ys \<and> mset ys = mset connections"
  by (rule Array_sort_perm [where S = UNIV]) (simp_all add: baseCompare_def)

lemma data_keeps_connections:
  "data env st connections = Inr (ordered, rows) \<Longrightarrow> mset ordered = mset connections"
  using baseCompare_sorts [of env connections]
  by (auto simp: data_def split: sum.splits)

subsection \<open>Sorting by a traffic column\<close>

text \<open>
  What the second sort does achieve for the columns upload and download: it never
  throws on formatted cells, and the rows come out ordered by the numbers
  \<^verbatim>\<open>parseTraffic\<close> reads from them.
\<close>

lemma traffic_column_sort:
  assumes col: "col = Upload \<or> col = Download" and st: "column st = Some col"
  shows "(\<exists>ordered rows ks.
            data env st connections = Inr (ordered, rows) \<and>
            mset rows = mset (map (toRow env) connections) \<and>
            map (\<lambda>r. parseTraffic (field col r)) rows = map (\<lambda>k. Inr (Num k)) ks \<and>
            (if asc st then sorted ks else sorted (rev ks))) \<and>
         (upload a = 9 \<and> upload b = 10240 \<longrightarrow>
            row_upload (toRow env a) = ''9 B'' \<and> row_upload (toRow env b) = ''10.00 KB'' \<and>
            userCompare env \<lparr>column = Some Upload, asc = True\<rparr> (toRow env a) (toRow env b) =
              Inr (Num (9 - 10240)))"
proof
  define key where "key r = (case parseTraffic (field col r) of Inr (Num k) \<Rightarrow> k | _ \<Rightarrow> 0)" for r
  define S where "S = range (toRow env)"
  define R where "R x y = (if asc st then key x \<le> key y else key y \<le> key x)" for x y
  have parsed: "parseTraffic (field col r) = Inr (Num (key r))" if "r \<in> S" for r
  proof -
    from that obtain c where "r = toRow env c" by (auto simp: S_def)
    with col obtain n where "field col r = formatTraffic n"
      by (auto simp: toRow_def)
    with parse_format_number [of n] show ?thesis by (auto simp: key_def)
  qed
  obtain ys where ys: "Array_sort (baseCompare env) connections = Inr ys"
    "mset ys = mset connections"
    using baseCompare_sorts by blast
  have "\<exists>rows. Array_sort (userCompare env st) (map (toRow env) ys) = Inr rows \<and>
          mset rows = mset (map (toRow env) ys) \<and> sorted_wrt R rows"
  proof (rule Array_sort_correct [where S = S])
    fix x y assume "x \<in> S" "y \<in> S"
    with parsed col st
    show "\<exists>v. userCompare env st x y = Inr v \<and> (sort_order v \<le> 0 \<longleftrightarrow> R x y)"
      by (auto simp: userCompare_def R_def)
  next
    show "R x y \<or> R y x" for x y by (auto simp: R_def)
  next
    show "R x y \<Longrightarrow> R y z \<Longrightarrow> R x z" for x y z by (auto simp: R_def split: if_splits)
  next
    show "set (map (toRow env) ys) \<subseteq> S" by (auto simp: S_def)
  qed
  then obtain rows where rows: "Array_sort (userCompare env st) (map (toRow env) ys) = Inr rows"
    "mset rows = mset (map (toRow env) ys)" "sorted_wrt R rows"
    by blast
  from rows(2) have "set rows = set (map (toRow env) ys)" by (rule mset_eq_setD)
  then have inS: "r \<in> S" if "r \<in> set rows" for r using that by (auto simp: S_def)
  have 1: "data env st connections = Inr (ys, rows)"
    using ys(1) rows(1) by (simp add: data_def)
  have 2: "mset rows = mset (map (toRow env) connections)"
    using rows(2) ys(2) by simp
  have 3: "map (\<lambda>r. parseTraffic (field col r)) rows = map (\<lambda>k. Inr (Num k)) (map key rows)"
    using inS parsed by simp
  have 4: "if asc st then sorted (map key rows) else sorted (rev (map key rows))"
  proof (cases "asc st")
    case True
    have "sorted_wrt (\<lambda>x y. key x \<le> key y) rows"
      by (rule sorted_wrt_mono_rel [OF _ rows(3)]) (simp add: R_def True)
    with True show ?thesis by (simp add: sorted_map)
  next
    case False
    have "sorted_wrt (\<lambda>x y. key y \<le> key x) rows"
      by (rule sorted_wrt_mono_rel [OF _ rows(3)]) (simp add: R_def False)
    then have "sorted (rev (map key rows))"
      by (simp add: sorted_wrt_rev sorted_wrt_map flip: rev_map)
    with False show ?thesis by simp
  qed
  from 1 2 3 4
  show "\<exists>ordered rows ks.
            data env st connections = Inr (ordered, rows) \<and>
            mset rows = mset (map (toRow env) connections) \<and>
            map (\<lambda>r. parseTraffic (field col r)) rows = map (\<lambda>k. Inr (Num k)) ks \<and>
            (if asc st then sorted ks else sorted (rev ks))"
    by blast
next
  show "upload a = 9 \<and> upload b = 10240 \<longrightarrow>
            row_upload (toRow env a) = ''9 B'' \<and> row_upload (toRow env b) = ''10.00 KB'' \<and>
            userCompare env \<lparr>column = Some Upload, asc = True\<rparr> (toRow env a) (toRow env b) =
              Inr (Num (9 - 10240))"
  proof
    assume "upload a = 9 \<and> upload b = 10240"
    moreover have "formatTraffic 9 = ''9 B''" "formatTraffic 10240 = ''10.00 KB''"
      "parseTraffic ''9 B'' = Inr (Num 9)" "parseTraffic ''10.00 KB'' = Inr (Num 10240)"
      by code_simp+
    ultimately show "row_upload (toRow env a) = ''9 B'' \<and> row_upload (toRow env b) = ''10.00 KB'' \<and>
            userCompare env \<lparr>column = Some Upload, asc = True\<rparr> (toRow env a) (toRow env b) =
              Inr (Num (9 - 10240))"
      by (simp add: toRow_def userCompare_def)
  qed
qed

subsection \<open>The example collation\<close>

lemma compare_units_total: "compare_units a b \<le> 0 \<or> compare_units b a \<le> 0"
  by (induction a b rule: compare_units.induct) auto

lemma compare_units_trans:
  "compare_units a b \<le> 0 \<Longrightarrow> compare_units b c \<le> 0 \<Longrightarrow> compare_units a c \<le> 0"
proof (induction a b arbitrary: c rule: compare_units.induct)
  case 1
  then show ?case by simp
next
  case (2 y ys)
  then show ?case by (cases c) simp_all
next
  case (3 x xs)
  then show ?case by simp
next
  case (4 x xs y ys)
  show ?case
  proof (cases c)
    case Nil
    with 4 show ?thesis by (simp split: if_splits)
  next
    case (Cons z zs)
    with "4.prems" "4.IH" [of zs] show ?thesis
      by (simp split: if_splits; linarith?)
  qed
qed

lemma compare_bytes_total: "compare_bytes a b \<le> 0 \<or> compare_bytes b a \<le> 0"
  unfolding compare_bytes_def by (rule compare_units_total)

lemma compare_bytes_trans:
  "compare_bytes a b \<le> 0 \<Longrightarrow> compare_bytes b c \<le> 0 \<Longrightarrow> compare_bytes a c \<le> 0"
  unfolding compare_bytes_def by (rule compare_units_trans)

subsection \<open>One feed of the store\<close>

lemma reconcile_other: "conn_id c \<noteq> X \<Longrightarrow> reconcile m c X = m X"
  by (simp add: reconcile_def split: option.splits)

lemma reconcile_cong: "m X = m' X \<Longrightarrow> conn_id c = X \<Longrightarrow> reconcile m c X = reconcile m' c X"
  by (simp add: reconcile_def split: option.splits)

lemma foldl_reconcile_filter:
  "m X = m' X \<Longrightarrow>
   foldl reconcile m incoming X = foldl reconcile m' (filter (\<lambda>c. conn_id c = X) incoming) X"
proof (induction incoming arbitrary: m m')
  case Nil
  then show ?case by simp
next
  case (Cons c incoming)
  show ?case
  proof (cases "conn_id c = X")
    case True
    with Cons.prems have "reconcile m c X = reconcile m' c X" by (rule reconcile_cong)
    from Cons.IH [of "reconcile m c" "reconcile m' c"] this True show ?thesis by simp
  next
    case False
    with Cons.prems have "reconcile m c X = m' X" by (simp add: reconcile_other)
    from Cons.IH [of "reconcile m c" m'] this False show ?thesis by simp
  qed
qed

lemma filter_single:
  assumes "filter (\<lambda>c. conn_id c = X) incoming = [c]"
  shows "conn_id c = X \<and> X \<in> set (map conn_id incoming)"
proof -
  have "c \<in> set (filter (\<lambda>c. conn_id c = X) incoming)"
    by (simp add: assms)
  then show ?thesis by auto
qed

lemma feed_unknown_absent:
  assumes "mapping s X = None" and "X \<notin> conn_id ` set incoming"
  shows "mapping (feed incoming s) X = None"
proof -
  from assms(2) have "filter (\<lambda>c. conn_id c = X) incoming = []"
    by (auto simp: filter_empty_conv)
  with foldl_reconcile_filter [of "mapping s" X "mapping s" incoming] assms(1)
  have "foldl reconcile (mapping s) incoming X = None" by simp
  then show ?thesis
    by (simp add: feed_def Let_def complete_absent_def purge_completed_def)
qed

lemma feed_first_appearance:
  assumes "mapping s X = None" and "filter (\<lambda>c. conn_id c = X) incoming = [c]"
  shows "mapping (feed incoming s) X = Some (stored c \<lparr>rate_upload = 0, rate_download = 0\<rparr>)"
proof -
  have c: "conn_id c = X" "X \<in> set (map conn_id incoming)"
    using filter_single [OF assms(2)] by simp_all
  from foldl_reconcile_filter [of "mapping s" X "mapping s" incoming] assms c(1)
  have "foldl reconcile (mapping s) incoming X =
        Some (stored c \<lparr>rate_upload = 0, rate_download = 0\<rparr>)"
    by (simp add: reconcile_def)
  with c(2) show ?thesis
    by (simp add: feed_def Let_def complete_absent_def purge_completed_def stored_def)
qed

lemma feed_update:
  assumes "mapping s X = Some old" and "\<not> completed old"
    and "filter (\<lambda>c. conn_id c = X) incoming = [c]"
  shows "mapping (feed incoming s) X =
    Some (stored c \<lparr>rate_upload = max 0 (upload c - upload old),
                     rate_download = max 0 (download c - download old)\<rparr>)"
proof -
  have c: "conn_id c = X" "X \<in> set (map conn_id incoming)"
    using filter_single [OF assms(3)] by simp_all
  from foldl_reconcile_filter [of "mapping s" X "mapping s" incoming] assms c(1)
  have "foldl reconcile (mapping s) incoming X =
        Some (stored c \<lparr>rate_upload = max 0 (upload c - upload old),
                     rate_download = max 0 (download c - download old)\<rparr>)"
    by (simp add: reconcile_def)
  with c(2) show ?thesis
    by (simp add: feed_def Let_def complete_absent_def purge_completed_def stored_def)
qed

lemma handleConnection_snoc:
  "handleConnection (snapshots @ [snapshot]) st =
   handleConnection [snapshot] (handleConnection snapshots st)"
  by (induction snapshots arbitrary: st) simp_all

lemma handleConnection_take_Suc:
  "n < length snapshots \<Longrightarrow>
   store (handleConnection (take (Suc n) snapshots) st) =
   feed (snap_connections (snapshots ! n)) (store (handleConnection (take n snapshots) st))"
  by (simp add: take_Suc_conv_app_nth handleConnection_snoc)

subsection \<open>The cycle of the sort state\<close>

lemma handleSort_cycle:
  "handleSort (Some c) \<lparr>column = None, asc = True\<rparr> = \<lparr>column = Some c, asc = True\<rparr> \<and>
   handleSort (Some c) \<lparr>column = Some c, asc = True\<rparr> = \<lparr>column = Some c, asc = False\<rparr> \<and>
   handleSort (Some c) \<lparr>column = Some c, asc = False\<rparr> = \<lparr>column = None, asc = True\<rparr>"
  by (simp add: handleSort_def)

subsection \<open>The example of the upload column\<close>

lemma traffic_column_sort_example:
  "data example_env \<lparr>column = Some Upload, asc = True\<rparr>
     [example_connection ''a'' 10 10240 False, example_connection ''b'' 20 9 False] =
   Inr ([example_connection ''a'' 10 10240 False, example_connection ''b'' 20 9 False],
        [toRow example_env (example_connection ''b'' 20 9 False),
         toRow example_env (example_connection ''a'' 10 10240 False)]) \<and>
   compare_bytes ''10.00 KB'' ''9 B'' < 0"
  by code_simp

section \<open>The claims\<close>

text \<open>
  Claim C1. Snapshots are fed in order; a connection id \<open>X\<close>, unknown to the store at
  the start, appears for the first time in snapshot \<open>f\<close> and in every snapshot after it
  (once in each, with the record \<open>r i\<close> in snapshot \<open>i\<close>), and its cumulative counters
  never decrease. Then after tick \<open>n\<close> the stored speed of \<open>X\<close> is \<open>(0, 0)\<close> when \<open>n\<close>
  is the tick of its first appearance, and the difference of the counters of ticks \<open>n\<close>
  and \<open>n - 1\<close> otherwise. The handler is the source's; the store is the one the
  specification describes.
\<close>

theorem speed_is_counter_delta:
  assumes unknown: "mapping (store st) X = None"
    and before: "\<And>i. i < f \<Longrightarrow> X \<notin> conn_id ` set (snap_connections (snapshots ! i))"
    and present: "\<And>i. f \<le> i \<Longrightarrow> i < length snapshots \<Longrightarrow>
        filter (\<lambda>c. conn_id c = X) (snap_connections (snapshots ! i)) = [r i]"
    and mono: "\<And>i. f \<le> i \<Longrightarrow> Suc i < length snapshots \<Longrightarrow>
        upload (r i) \<le> upload (r (Suc i)) \<and> download (r i) \<le> download (r (Suc i))"
    and n: "f \<le> n" "n < length snapshots"
  shows "map_option speed (mapping (store (handleConnection (take (Suc n) snapshots) st)) X) =
    Some (if n = f then \<lparr>rate_upload = 0, rate_download = 0\<rparr>
          else \<lparr>rate_upload = upload (r n) - upload (r (n - 1)),
                rate_download = download (r n) - download (r (n - 1))\<rparr>)"
proof -
  have pre: "i \<le> f \<Longrightarrow> i \<le> length snapshots \<Longrightarrow>
      mapping (store (handleConnection (take i snapshots) st)) X = None" for i
  proof (induction i)
    case 0
    with unknown show ?case by simp
  next
    case (Suc i)
    then have "mapping (store (handleConnection (take i snapshots) st)) X = None" by simp
    moreover from Suc.prems have "X \<notin> conn_id ` set (snap_connections (snapshots ! i))"
      using before [of i] by simp
    ultimately show ?case
      using Suc.prems by (simp add: handleConnection_take_Suc feed_unknown_absent)
  qed
  have inv: "f \<le> k \<Longrightarrow> k < length snapshots \<Longrightarrow>
      mapping (store (handleConnection (take (Suc k) snapshots) st)) X =
        Some (stored (r k)
          (if k = f then \<lparr>rate_upload = 0, rate_download = 0\<rparr>
           else \<lparr>rate_upload = upload (r k) - upload (r (k - 1)),
                 rate_download = download (r k) - download (r (k - 1))\<rparr>))" for k
  proof (induction k)
    case 0
    then have "f = 0" by simp
    with pre [of 0] present [of 0] 0 show ?case
      by (simp add: handleConnection_take_Suc feed_first_appearance del: handleConnection.simps)
  next
    case (Suc k)
    show ?case
    proof (cases "Suc k = f")
      case True
      with pre [of "Suc k"] Suc.prems
      have "mapping (store (handleConnection (take (Suc k) snapshots) st)) X = None" by simp
      with present [of "Suc k"] Suc.prems True show ?thesis
        by (simp add: handleConnection_take_Suc feed_first_appearance)
    next
      case False
      with Suc.prems have fk: "f \<le> k" "k < length snapshots" by simp_all
      from Suc.IH [OF fk] obtain old where
        old: "mapping (store (handleConnection (take (Suc k) snapshots) st)) X = Some old"
          "\<not> completed old" "upload old = upload (r k)" "download old = download (r k)"
        by (simp add: stored_def)
      from mono [OF fk(1)] Suc.prems
      have m: "upload (r k) \<le> upload (r (Suc k))" "download (r k) \<le> download (r (Suc k))"
        by simp_all
      from feed_update [OF old(1,2) present [OF Suc.prems]] old(3,4) m False Suc.prems
      show ?thesis
        by (simp add: handleConnection_take_Suc [of "Suc k"])
    qed
  qed
  from inv [OF n] show ?thesis
    by (simp add: stored_def)
qed

theorem speed_is_counter_delta_witness:
  "map_option speed
     (mapping (store (handleConnection (take 2 example_snapshots) initial_state)) ''x'') =
     Some \<lparr>rate_upload = 0, rate_download = 0\<rparr> \<and>
   map_option speed
     (mapping (store (handleConnection (take 3 example_snapshots) initial_state)) ''x'') =
     Some \<lparr>rate_upload = 50, rate_download = 60\<rparr>"
proof -
  have unknown: "mapping (store initial_state) ''x'' = None"
    by (simp add: initial_state_def)
  have before: "''x'' \<notin> conn_id ` set (snap_connections (example_snapshots ! i))"
    if "i < 1" for i
    using that by (simp add: example_snapshots_def example_record_def)
  have present: "filter (\<lambda>c. conn_id c = ''x'') (snap_connections (example_snapshots ! i)) =
      [example_records i]" if "1 \<le> i" "i < length example_snapshots" for i
  proof -
    from that have "i = 1 \<or> i = 2" by (auto simp: example_snapshots_def)
    then show ?thesis
      by (auto simp: example_snapshots_def example_records_def example_record_def)
  qed
  have mono: "upload (example_records i) \<le> upload (example_records (Suc i)) \<and>
      download (example_records i) \<le> download (example_records (Suc i))"
    if "1 \<le> i" "Suc i < length example_snapshots" for i
    using that by (simp add: example_records_def example_record_def)
  have len: "1 < length example_snapshots" "2 < length example_snapshots"
    by (simp_all add: example_snapshots_def)
  from speed_is_counter_delta [of initial_state "''x''" 1 example_snapshots example_records 1,
      OF unknown before present mono order_refl len(1)]
  have a: "map_option speed
     (mapping (store (handleConnection (take 2 example_snapshots) initial_state)) ''x'') =
     Some \<lparr>rate_upload = 0, rate_download = 0\<rparr>"
    by (simp add: numeral_2_eq_2)
  have "(1::nat) \<le> 2" by simp
  from speed_is_counter_delta [of initial_state "''x''" 1 example_snapshots example_records 2,
      OF unknown before present mono this len(2)]
  have b: "map_option speed
     (mapping (store (handleConnection (take 3 example_snapshots) initial_state)) ''x'') =
     Some \<lparr>rate_upload = 50, rate_download = 60\<rparr>"
    by (simp add: numeral_3_eq_3 example_records_def example_record_def)
  from a b show ?thesis ..
qed

text \<open>
  Claim C2. With no sort column active the rows are the connections in the base order,
  one row each: the memo returns the rows of a permutation of the connections in which
  every active connection stands before every completed one, and inside each group the
  start times ascend, equal start times being ordered by \<^verbatim>\<open>localeCompare\<close> of the ids.
  The collation is taken from the environment and assumed to be a total preorder, as a
  comparison of strings is.
\<close>

theorem default_order:
  assumes total: "\<And>a b. localeCompare env a b \<le> 0 \<or> localeCompare env b a \<le> 0"
    and trans: "\<And>a b c. localeCompare env a b \<le> 0 \<Longrightarrow> localeCompare env b c \<le> 0 \<Longrightarrow>
                 localeCompare env a c \<le> 0"
    and none: "column st = None"
  shows "\<exists>ordered. data env st connections = Inr (ordered, map (toRow env) ordered) \<and>
           mset ordered = mset connections \<and>
           sorted_wrt (spec_base_order env) ordered \<and>
           sorted_wrt (\<lambda>a b. row_completed a \<longrightarrow> row_completed b) (map (toRow env) ordered)"
proof -
  have "\<exists>ys. Array_sort (baseCompare env) connections = Inr ys \<and> mset ys = mset connections \<and>
          sorted_wrt (spec_base_order env) ys"
  proof (rule Array_sort_correct [where S = UNIV])
    show "\<exists>v. baseCompare env a b = Inr v \<and> (sort_order v \<le> 0 \<longleftrightarrow> spec_base_order env a b)" for a b
      by (rule baseCompare_order)
    show "spec_base_order env a b \<or> spec_base_order env b a" for a b
      by (rule spec_base_order_total) (rule total)
    show "spec_base_order env a b \<Longrightarrow> spec_base_order env b c \<Longrightarrow> spec_base_order env a c" for a b c
      by (rule spec_base_order_trans) (rule trans)
  qed simp
  then obtain ys where ys: "Array_sort (baseCompare env) connections = Inr ys"
    "mset ys = mset connections" "sorted_wrt (spec_base_order env) ys"
    by blast
  have "Array_sort (userCompare env st) (map (toRow env) ys) = Inr (map (toRow env) ys)"
    by (rule Array_sort_zero) (simp add: userCompare_def none)
  with ys(1) have "data env st connections = Inr (ys, map (toRow env) ys)"
    by (simp add: data_def)
  moreover have "sorted_wrt (\<lambda>a b. row_completed a \<longrightarrow> row_completed b) (map (toRow env) ys)"
    unfolding sorted_wrt_map
    by (rule sorted_wrt_mono_rel [OF _ ys(3)]) (auto simp: spec_base_order_def toRow_def)
  ultimately show ?thesis using ys(2,3) by blast
qed

theorem default_order_witness:
  "\<exists>ordered.
     data example_env initial_sort
       [example_connection ''a'' 10 0 True, example_connection ''c'' 20 0 False,
        example_connection ''b'' 20 0 False] = Inr (ordered, map (toRow example_env) ordered) \<and>
     mset ordered =
       mset [example_connection ''a'' 10 0 True, example_connection ''c'' 20 0 False,
             example_connection ''b'' 20 0 False] \<and>
     sorted_wrt (spec_base_order example_env) ordered \<and>
     sorted_wrt (\<lambda>a b. row_completed a \<longrightarrow> row_completed b) (map (toRow example_env) ordered)"
proof (rule default_order)
  show "localeCompare example_env a b \<le> 0 \<or> localeCompare example_env b a \<le> 0" for a b
    by (simp add: example_env_def compare_bytes_total)
  show "localeCompare example_env a b \<le> 0 \<Longrightarrow> localeCompare example_env b c \<le> 0 \<Longrightarrow>
        localeCompare example_env a c \<le> 0" for a b c
    using compare_bytes_trans [of a b c] by (simp add: example_env_def)
  show "column initial_sort = None"
    by (simp add: initial_sort_def)
qed

lemma default_order_example:
  "data example_env initial_sort
       [example_connection ''a'' 10 0 True, example_connection ''c'' 20 0 False,
        example_connection ''b'' 20 0 False] =
   Inr ([example_connection ''b'' 20 0 False, example_connection ''c'' 20 0 False,
         example_connection ''a'' 10 0 True],
        map (toRow example_env)
          [example_connection ''b'' 20 0 False, example_connection ''c'' 20 0 False,
           example_connection ''a'' 10 0 True])"
  by code_simp

text \<open>
  Claim C3. With the sort column upload or download the rows are claimed to be compared
  by their numeric byte value, not by the formatted text. The comparator does decode the
  cells, and 9 bytes (\<^verbatim>\<open>9 B\<close>) sort before 10240 bytes (\<^verbatim>\<open>10.00 KB\<close>) as the claim's
  example says (\<open>traffic_column_sort\<close>, \<open>traffic_column_sort_example\<close>). But the number
  it decodes is not the byte value: \<^verbatim>\<open>parseInt\<close> drops the decimals of the cell, so 1536
  bytes (\<^verbatim>\<open>1.50 KB\<close>) and 1024 bytes (\<^verbatim>\<open>1.00 KB\<close>) both decode to 1024, the comparator
  returns 0, and sorting the upload column ascending leaves 1536 before 1024.
\<close>

theorem upload_sort_keeps_1536_before_1024:
  "data example_env \<lparr>column = Some Upload, asc = True\<rparr>
     [example_connection ''a'' 10 1536 False, example_connection ''b'' 20 1024 False] =
   Inr ([example_connection ''a'' 10 1536 False, example_connection ''b'' 20 1024 False],
        [toRow example_env (example_connection ''a'' 10 1536 False),
         toRow example_env (example_connection ''b'' 20 1024 False)]) \<and>
   row_upload (toRow example_env (example_connection ''a'' 10 1536 False)) = ''1.50 KB'' \<and>
   row_upload (toRow example_env (example_connection ''b'' 20 1024 False)) = ''1.00 KB'' \<and>
   userCompare example_env \<lparr>column = Some Upload, asc = True\<rparr>
     (toRow example_env (example_connection ''a'' 10 1536 False))
     (toRow example_env (example_connection ''b'' 20 1024 False)) = Inr (Num 0)"
  by code_simp

text \<open>
  Claim C4. Repeated selection of one column cycles none, ascending, descending, none; and
  selecting a different column is claimed to make it the sort column in ascending
  direction from any state. The cycle holds (\<open>handleSort_cycle\<close>). The switch does not
  reset the direction: \<^verbatim>\<open>setSort('column', column)\<close> assigns the column only, so after
  Host has been clicked twice (Host, descending), a click on Network gives (Network,
  descending).
\<close>

theorem handleSort_switch_keeps_descending:
  "handleSort (Some Host) initial_sort = \<lparr>column = Some Host, asc = True\<rparr> \<and>
   handleSort (Some Host) (handleSort (Some Host) initial_sort) =
     \<lparr>column = Some Host, asc = False\<rparr> \<and>
   handleSort (Some Network) (handleSort (Some Host) (handleSort (Some Host) initial_sort)) =
     \<lparr>column = Some Network, asc = False\<rparr>"
  by (simp add: handleSort_def initial_sort_def)

text \<open>
  Claim C5. \<^verbatim>\<open>parseTraffic (formatTraffic x)\<close> is claimed to recover \<open>x\<close> up to the error
  of rounding to two decimals, and exactly for the byte unit. The byte unit is exact
  (\<open>parse_format_bytes\<close>) and 2048 comes back as 2048 (\<open>parse_format_2048\<close>). Above
  bytes \<^verbatim>\<open>parseInt\<close> stops at the decimal point, so the two decimals are lost
  altogether: 1536 bytes print as \<^verbatim>\<open>1.50 KB\<close> and parse back as 1024, off by 512 where
  two decimals of a kilobyte are worth about 5 bytes. The sort of claim C3 compares
  these parsed numbers.
\<close>

theorem parse_format_1536:
  "formatTraffic 1536 = ''1.50 KB'' \<and> parseTraffic (formatTraffic 1536) = Inr (Num 1024)"
  by code_simp

text \<open>
  Claim C6, as amended. For a unit token that is none of B, KB, MB, GB, TB (in any case)
  \<^verbatim>\<open>parseTraffic\<close> raises nothing: \<^verbatim>\<open>indexOf\<close> returns \<open>-1\<close>, the scaling loop does not
  run, and the result is \<^verbatim>\<open>parseInt\<close> of the numeric literal, the number the unit B would
  give.
\<close>

theorem parseTraffic_unknown_unit:
  assumes "CHR '' '' \<notin> set num" and "CHR '' '' \<notin> set unit"
    and "toUpperCase unit \<notin> set trafficUnit"
  shows "parseTraffic (num @ '' '' @ unit) = Inr (parseInt num)"
proof -
  have "split_sp (num @ '' '' @ unit) = [num, unit]"
    using assms(1,2) by (simp add: split_sp_first_space split_sp_no_space)
  then show ?thesis
    using assms(3) by (simp add: parseTraffic_def indexOf_absent parseTraffic_loop_nonpos)
qed

theorem parseTraffic_unknown_unit_witness:
  "parseTraffic ''7 PB'' = Inr (Num 7)"
proof -
  have a: "CHR '' '' \<notin> set ''7''" by simp
  have b: "CHR '' '' \<notin> set ''PB''" by simp
  have c: "toUpperCase ''PB'' \<notin> set trafficUnit" by code_simp
  have d: "parseInt ''7'' = Num 7" by code_simp
  from parseTraffic_unknown_unit [OF a b c] d show ?thesis by simp
qed

text \<open>
  Claim C6 as stated says that an unsupported unit makes the parse fail with a decode
  error. \<^verbatim>\<open>5 XB\<close> has the unsupported unit XB and parses to the number 5.
\<close>

theorem parseTraffic_unknown_unit_counterexample:
  "toUpperCase ''XB'' \<notin> set trafficUnit \<and> parseTraffic ''5 XB'' = Inr (Num 5)"
  by code_simp

text \<open>
  Claim C7. The unit index is claimed to advance only while a larger unit remains, so that
  the suffix is one of B, KB, MB, GB, TB. The loop tests \<^verbatim>\<open>idx < trafficUnit.length\<close>, so
  from TB it advances once more to index 5, where the array has no element:
  \<open>2 ^ 50 + 1024\<close> bytes print with the suffix \<^verbatim>\<open>undefined\<close>. The two examples of the
  claim hold (\<open>formatTraffic_1024\<close>, \<open>formatTraffic_512\<close>), and below 1024 the count
  prints as an integer followed by \<^verbatim>\<open>B\<close> (\<open>formatTraffic_bytes\<close>).
\<close>

theorem formatTraffic_past_TB:
  "formatTraffic (2 ^ 50 + 1024) = ''1.00 undefined''"
  by code_simp

text \<open>
  Claim C8. The speed formatter returns \<^verbatim>\<open>-\<close> when both rates are zero, both arrows with
  the formatted rates when both are nonzero, the up arrow alone when only the upload
  rate is nonzero and the down arrow alone when only the download rate is nonzero.
  In particular the result for \<open>(0, 0)\<close> is \<^verbatim>\<open>-\<close>, and the result for \<open>(100, 0)\<close> starts
  with the up arrow and holds no down arrow.
\<close>

theorem formatSpeed_cases:
  "(up = 0 \<and> down = 0 \<longrightarrow> formatSpeed up down = ''-'') \<and>
   (up \<noteq> 0 \<and> down \<noteq> 0 \<longrightarrow>
      formatSpeed up down =
        up_arrow @ '' '' @ formatTraffic up @ ''/s '' @
        down_arrow @ '' '' @ formatTraffic down @ ''/s'') \<and>
   (up \<noteq> 0 \<and> down = 0 \<longrightarrow>
      formatSpeed up down = up_arrow @ '' '' @ formatTraffic up @ ''/s'') \<and>
   (up = 0 \<and> down \<noteq> 0 \<longrightarrow>
      formatSpeed up down = down_arrow @ '' '' @ formatTraffic down @ ''/s'') \<and>
   formatSpeed 0 0 = ''-'' \<and>
   prefix up_arrow (formatSpeed 100 0) \<and> \<not> sublist down_arrow (formatSpeed 100 0)"
proof -
  have "formatSpeed 100 0 = up_arrow @ '' 100 B/s''"
    by code_simp
  moreover have "\<not> sublist down_arrow (up_arrow @ '' 100 B/s'')"
    by code_simp
  ultimately show ?thesis
    by (simp add: formatSpeed_def)
qed

theorem formatSpeed_cases_witness:
  "formatSpeed 0 0 = ''-'' \<and>
   formatSpeed 2048 512 = up_arrow @ '' 2.00 KB/s '' @ down_arrow @ '' 512 B/s'' \<and>
   formatSpeed 100 0 = up_arrow @ '' 100 B/s'' \<and>
   formatSpeed 0 1536 = down_arrow @ '' 1.50 KB/s''"
proof -
  have t: "formatTraffic 2048 = ''2.00 KB''" "formatTraffic 512 = ''512 B''"
    "formatTraffic 100 = ''100 B''" "formatTraffic 1536 = ''1.50 KB''"
    by code_simp+
  from formatSpeed_cases [of 0 0] formatSpeed_cases [of 2048 512]
    formatSpeed_cases [of 100 0] formatSpeed_cases [of 0 1536] t
  show ?thesis by simp
qed

text \<open>
  Claim C9. Computing the rows is claimed to leave the connections of the store,
  the order of the array included, unchanged. The connection objects are not written
  (\<open>data_keeps_connections\<close>: the array holds the same elements afterwards), but the first
  \<^verbatim>\<open>.sort\<close> is called on the array \<^verbatim>\<open>connections\<close> itself, with no copy before it as
  \<^verbatim>\<open>c.chains.slice().reverse()\<close> makes one two lines below: an array holding a completed
  connection before an active one is reordered by the memo.
\<close>

theorem data_sorts_in_place:
  "data example_env initial_sort
     [example_connection ''a'' 10 0 True, example_connection ''b'' 20 0 False] =
   Inr ([example_connection ''b'' 20 0 False, example_connection ''a'' 10 0 True],
        [toRow example_env (example_connection ''b'' 20 0 False),
         toRow example_env (example_connection ''a'' 10 0 True)]) \<and>
   [example_connection ''b'' 20 0 False, example_connection ''a'' 10 0 True] \<noteq>
   [example_connection ''a'' 10 0 True, example_connection ''b'' 20 0 False]"
  by code_simp

text \<open>
  Claim C10, as amended. \<^verbatim>\<open>parseTraffic\<close> is partial: it throws exactly on the strings
  without a space, where there is no unit token. Every string with a space reaches the
  unit lookup and returns a number: the numeric literal is what stands before the first
  space, the unit token what stands between that space and the next one (or the end),
  and the rest of the string is not read.
\<close>

theorem parseTraffic_by_first_space:
  "(parseTraffic s = Inl TypeError \<longleftrightarrow> CHR '' '' \<notin> set s) \<and>
   (CHR '' '' \<notin> set num \<longrightarrow>
      parseTraffic (num @ '' '' @ rest) =
        Inr (parseTraffic_loop
               (indexOf trafficUnit (toUpperCase (takeWhile (\<lambda>c. c \<noteq> CHR '' '') rest)))
               (parseInt num)))"
proof (intro conjI impI)
  show "parseTraffic s = Inl TypeError \<longleftrightarrow> CHR '' '' \<notin> set s"
  proof
    assume err: "parseTraffic s = Inl TypeError"
    show "CHR '' '' \<notin> set s"
    proof
      assume "CHR '' '' \<in> set s"
      then obtain a b where "s = a @ CHR '' '' # b" and "CHR '' '' \<notin> set a"
        by (auto dest: split_list_first)
      with parseTraffic_number_unit [of a b] err show False by simp
    qed
  next
    assume "CHR '' '' \<notin> set s"
    then show "parseTraffic s = Inl TypeError"
      by (simp add: parseTraffic_def split_sp_no_space)
  qed
next
  assume "CHR '' '' \<notin> set num"
  from parseTraffic_number_unit [OF this, of rest]
  show "parseTraffic (num @ '' '' @ rest) =
        Inr (parseTraffic_loop
               (indexOf trafficUnit (toUpperCase (takeWhile (\<lambda>c. c \<noteq> CHR '' '') rest)))
               (parseInt num))"
    by (simp add: hd_split_sp)
qed

theorem parseTraffic_by_first_space_witness:
  "parseTraffic ''2048'' = Inl TypeError \<and> parseTraffic '''' = Inl TypeError \<and>
   parseTraffic ''3 kb and more'' = Inr (Num 3072) \<and>
   parseTraffic ''3  kb'' = Inr (Num 3)"
proof -
  have 1: "parseTraffic ''2048'' = Inl TypeError"
    using parseTraffic_by_first_space [of "''2048''"] by simp
  have 2: "parseTraffic '''' = Inl TypeError"
    using parseTraffic_by_first_space [of "''''"] by simp
  have n: "CHR '' '' \<notin> set ''3''" by simp
  have u: "parseTraffic_loop
             (indexOf trafficUnit
                (toUpperCase (takeWhile (\<lambda>c. c \<noteq> CHR '' '') ''kb and more'')))
             (parseInt ''3'') = Num 3072"
    "parseTraffic_loop
             (indexOf trafficUnit
                (toUpperCase (takeWhile (\<lambda>c. c \<noteq> CHR '' '') '' kb'')))
             (parseInt ''3'') = Num 3"
    by code_simp+
  have 3: "parseTraffic ''3 kb and more'' = Inr (Num 3072)"
    using parseTraffic_by_first_space [of s "''3''" "''kb and more''" for s] n u(1) by simp
  have 4: "parseTraffic ''3  kb'' = Inr (Num 3)"
    using parseTraffic_by_first_space [of s "''3''" "'' kb''" for s] n u(2) by simp
  from 1 2 3 4 show ?thesis by simp
qed

text \<open>
  Claim C10 as stated says that only strings with a single separating space reach the
  unit lookup. Strings with two spaces reach it too: in \<^verbatim>\<open>5 KB extra\<close> the third field
  is ignored and the result is 5120; in \<^verbatim>\<open>5  KB\<close> the unit token is the empty string
  between the two spaces, which is no unit, and the result is 5.
\<close>

theorem parseTraffic_two_spaces_counterexample:
  "count_list ''5 KB extra'' CHR '' '' = 2 \<and> parseTraffic ''5 KB extra'' = Inr (Num 5120) \<and>
   count_list ''5  KB'' CHR '' '' = 2 \<and> parseTraffic ''5  KB'' = Inr (Num 5)"
  by code_simp

end
